theory Spec2Isabelle
  imports Main "HOL-Library.DAList"
begin

section \<open>Session state reducers (core/state.py)\<close>

text \<open>
  Python slices on lists.  \<open>py_slice_upto xs k\<close> is \<^verbatim>\<open>xs[:k]\<close> and
  \<open>py_slice_from xs i\<close> is \<^verbatim>\<open>xs[i:]\<close> for an arbitrary Python integer: a
  negative bound counts from the end of the list and every bound is clipped to the list.
\<close>

definition py_slice_upto :: "'a list \<Rightarrow> int \<Rightarrow> 'a list" where
  "py_slice_upto xs k =
     (if k < 0 then take (nat (int (length xs) + k)) xs else take (nat k) xs)"

definition py_slice_from :: "'a list \<Rightarrow> int \<Rightarrow> 'a list" where
  "py_slice_from xs i =
     (if i < 0 then drop (nat (int (length xs) + i)) xs else drop (nat i) xs)"

text \<open>
  \<^verbatim>\<open>def skill_list_reducer(current, new): return new\<close>
\<close>

definition skill_list_reducer :: "string list \<Rightarrow> string list \<Rightarrow> string list" where
  "skill_list_reducer current new = new"

text \<open>
  \<^verbatim>\<open>
  def skill_list_accumulator(current, new):
      if not current:
          return new
      combined = current + [s for s in new if s not in current]
      return combined
  \<close>
\<close>

definition skill_list_accumulator :: "string list \<Rightarrow> string list \<Rightarrow> string list" where
  "skill_list_accumulator current new =
     (if current = [] then new
      else let combined = current @ [s \<leftarrow> new. s \<notin> set current] in combined)"

text \<open>
  \<^verbatim>\<open>
  def skill_list_fifo(max_skills=3):
      def reducer(current, new):
          if not current:
              return new[:max_skills]
          combined = current + [s for s in new if s not in current]
          return combined[-max_skills:]
      return reducer
  \<close>
  The factory is the curried function: \<open>skill_list_fifo K\<close> is the reducer.
\<close>

definition skill_list_fifo :: "int \<Rightarrow> string list \<Rightarrow> string list \<Rightarrow> string list" where
  "skill_list_fifo max_skills current new =
     (if current = [] then py_slice_upto new max_skills
      else let combined = current @ [s \<leftarrow> new. s \<notin> set current]
           in py_slice_from combined (- max_skills))"

text \<open>
  One conversation: the reducer folded over the inputs of successive turns, and the
  special case where every turn signals a single name.
\<close>

definition run_turns ::
  "(string list \<Rightarrow> string list \<Rightarrow> string list) \<Rightarrow> string list \<Rightarrow> string list list \<Rightarrow> string list" where
  "run_turns reducer start inputs = foldl reducer start inputs"

definition load_each ::
  "(string list \<Rightarrow> string list \<Rightarrow> string list) \<Rightarrow> string list \<Rightarrow> string list" where
  "load_each reducer names = run_turns reducer [] (map (\<lambda>n. [n]) names)"


section \<open>Skills and their metadata (core/base_skill.py, core/exceptions.py)\<close>

text \<open>
  The exceptions the modelled code raises.  \<open>ValueError\<close> carries its message,
  \<open>SkillNotFoundError\<close> the skill name, \<open>SkillLoadError\<close> the skill name and the
  reason.  \<open>KeyError\<close>, \<open>AttributeError\<close> and \<open>NotADirectoryError\<close> are the built-in
  exceptions of a failed dictionary access, of an attribute read on \<^verbatim>\<open>None\<close> and of
  \<^verbatim>\<open>Path.iterdir\<close> on a path that is not a directory.  \<open>ModuleError\<close> stands for any
  other subclass of \<^verbatim>\<open>Exception\<close> raised by the code of a skill module.
  \<open>SystemExit\<close> (with its exit code) and \<open>KeyboardInterrupt\<close> are the exceptions that
  derive from \<^verbatim>\<open>BaseException\<close> and not from \<^verbatim>\<open>Exception\<close>: a handler
  \<^verbatim>\<open>except Exception\<close> does not catch them.
\<close>

datatype error =
    ValueError string
  | SkillNotFoundError string
  | SkillLoadError string string
  | KeyError string
  | AttributeError
  | NotADirectoryError string
  | ModuleError string
  | SystemExit int
  | KeyboardInterrupt


record SkillMetadata =
  name :: string
  description :: string
  version :: string
  tags :: "string list"
  visibility :: string
  dependencies :: "string list"
  required_permissions :: "string list"
  author :: "string option"
  enabled :: bool

text \<open>
  A tool is opaque to the core except for its name and description.
\<close>

datatype BaseTool = BaseTool (tool_name: string) (tool_description: string)

text \<open>
  A skill object: what its three abstract members return.  \<open>get_loader_tool\<close> is an
  option because \<open>validate\<close> guards against a skill whose loader is \<^verbatim>\<open>None\<close>.
\<close>

record BaseSkill =
  metadata :: SkillMetadata
  get_tools :: "BaseTool list"
  get_loader_tool :: "BaseTool option"

text \<open>
  \<^verbatim>\<open>
  def validate(self) -> bool:
      if not self.metadata.name:
          raise ValueError("Skill name cannot be empty")
      if not self.metadata.description:
          raise ValueError("Skill description cannot be empty")
      if not self.get_tools():
          raise ValueError("Skill must provide at least one tool")
      if not self.get_loader_tool():
          raise ValueError("Skill must provide a loader tool")
      return True
  \<close>
\<close>

definition validate :: "BaseSkill \<Rightarrow> error + bool" where
  "validate self =
     (if name (metadata self) = [] then Inl (ValueError ''Skill name cannot be empty'')
      else if description (metadata self) = []
        then Inl (ValueError ''Skill description cannot be empty'')
      else if get_tools self = []
        then Inl (ValueError ''Skill must provide at least one tool'')
      else if get_loader_tool self = None
        then Inl (ValueError ''Skill must provide a loader tool'')
      else Inr True)"


section \<open>The registry (core/registry.py)\<close>

text \<open>
  A Python dictionary keeps its keys unique and in insertion order; assigning to an
  existing key keeps the key's position.  This is the type of association lists with
  distinct keys: \<open>DAList.update\<close> replaces the value in place or appends the new pair,
  \<open>DAList.delete\<close> removes the pair, \<open>DAList.lookup\<close> reads it.
\<close>

record SkillRegistry =
  skills :: "(string, BaseSkill) alist"
  metadata_cache :: "(string, SkillMetadata) alist"

definition SkillRegistry_init :: SkillRegistry where
  "SkillRegistry_init = \<lparr>skills = DAList.empty, metadata_cache = DAList.empty\<rparr>"

definition keys :: "('k, 'v) alist \<Rightarrow> 'k list" where
  "keys d = map fst (DAList.impl_of d)"

definition has_key :: "('k, 'v) alist \<Rightarrow> 'k \<Rightarrow> bool" where
  "has_key d k = (DAList.lookup d k \<noteq> None)"

text \<open>
  What the module's logger receives, one constructor per call site: the overwrite
  warning and the two info lines of \<open>register\<close> and \<open>unregister\<close>, the warning, the
  per-directory error and the summary of \<open>discover_and_load\<close>, and the two info lines
  of the middleware (the flag is set on the asynchronous path).
\<close>

datatype log_event =
    WarnOverwriting string
  | InfoRegistered string string
  | InfoUnregistered string
  | WarnDirNotFound string
  | ErrorLoadFailed string error
  | InfoLoaded nat string
  | InfoSkillsLoaded bool "string list"
  | InfoFilteredTools bool nat "string list"

text \<open>
  \<^verbatim>\<open>
  def register(self, skill):
      skill.validate()
      name = skill.metadata.name
      if name in self._skills:
          logger.warning(f"Skill '{name}' already registered, overwriting")
      self._skills[name] = skill
      self._metadata_cache[name] = skill.metadata
      logger.info(f"Registered skill: {name} v{skill.metadata.version}")
  \<close>
  A method that mutates the registry returns its outcome (the exception or the value),
  the registry it leaves behind and the log lines it wrote.
\<close>

definition register ::
  "SkillRegistry \<Rightarrow> BaseSkill \<Rightarrow> (error + unit) \<times> SkillRegistry \<times> log_event list" where
  "register self skill =
     (case validate skill of
        Inl e \<Rightarrow> (Inl e, self, [])
      | Inr _ \<Rightarrow>
          let nm = name (metadata skill);
              warning = (if has_key (skills self) nm then [WarnOverwriting nm] else [])
          in (Inr (),
              self\<lparr>skills := DAList.update nm skill (skills self),
                   metadata_cache := DAList.update nm (metadata skill) (metadata_cache self)\<rparr>,
              warning @ [InfoRegistered nm (version (metadata skill))]))"

text \<open>
  \<^verbatim>\<open>
  def unregister(self, skill_name):
      if skill_name in self._skills:
          del self._skills[skill_name]
          del self._metadata_cache[skill_name]
          logger.info(f"Unregistered skill: {skill_name}")
  \<close>
  The second \<^verbatim>\<open>del\<close> raises \<open>KeyError\<close> when the cache lacks the key.
\<close>

definition unregister ::
  "SkillRegistry \<Rightarrow> string \<Rightarrow> (error + unit) \<times> SkillRegistry \<times> log_event list" where
  "unregister self skill_name =
     (if has_key (skills self) skill_name then
        let self1 = self\<lparr>skills := DAList.delete skill_name (skills self)\<rparr>
        in if has_key (metadata_cache self1) skill_name then
             (Inr (),
              self1\<lparr>metadata_cache := DAList.delete skill_name (metadata_cache self1)\<rparr>,
              [InfoUnregistered skill_name])
           else (Inl (KeyError skill_name), self1, [])
      else (Inr (), self, []))"

text \<open>
  \<^verbatim>\<open>
  def get(self, skill_name):
      if skill_name not in self._skills:
          raise SkillNotFoundError(skill_name)
      return self._skills[skill_name]
  \<close>
\<close>

definition get :: "SkillRegistry \<Rightarrow> string \<Rightarrow> error + BaseSkill" where
  "get self skill_name =
     (case DAList.lookup (skills self) skill_name of
        None \<Rightarrow> Inl (SkillNotFoundError skill_name)
      | Some skill \<Rightarrow> Inr skill)"

text \<open>\<^verbatim>\<open>__len__\<close> and \<^verbatim>\<open>__contains__\<close>.\<close>

definition len :: "SkillRegistry \<Rightarrow> nat" where
  "len self = length (DAList.impl_of (skills self))"

definition contains :: "SkillRegistry \<Rightarrow> string \<Rightarrow> bool" where
  "contains self skill_name = has_key (skills self) skill_name"

text \<open>
  \<^verbatim>\<open>
  def list_skills(self, filter_fn=None):
      if filter_fn is None:
          return list(self._skills.keys())
      return [name for name, meta in self._metadata_cache.items() if filter_fn(meta)]
  \<close>
\<close>

definition list_skills :: "SkillRegistry \<Rightarrow> (SkillMetadata \<Rightarrow> bool) option \<Rightarrow> string list" where
  "list_skills self filter_fn =
     (case filter_fn of
        None \<Rightarrow> keys (skills self)
      | Some f \<Rightarrow> [nm. (nm, meta) \<leftarrow> DAList.impl_of (metadata_cache self), f meta])"

text \<open>
  \<^verbatim>\<open>
  def get_all_loader_tools(self, filter_fn=None):
      skill_names = self.list_skills(filter_fn)
      loaders = []
      for name in skill_names:
          skill = self._skills[name]
          if skill.metadata.enabled:
              loaders.append(skill.get_loader_tool())
      return loaders
  \<close>
  The loop is \<open>loader_loop\<close>, with the list built so far as accumulator.  The list holds
  what \<open>get_loader_tool\<close> returned, so its elements are options.
\<close>

fun loader_loop ::
  "SkillRegistry \<Rightarrow> string list \<Rightarrow> BaseTool option list \<Rightarrow> error + BaseTool option list" where
  "loader_loop self [] loaders = Inr loaders"
| "loader_loop self (nm # rest) loaders =
     (case DAList.lookup (skills self) nm of
        None \<Rightarrow> Inl (KeyError nm)
      | Some skill \<Rightarrow>
          if enabled (metadata skill)
          then loader_loop self rest (loaders @ [get_loader_tool skill])
          else loader_loop self rest loaders)"

definition get_all_loader_tools ::
  "SkillRegistry \<Rightarrow> (SkillMetadata \<Rightarrow> bool) option \<Rightarrow> error + BaseTool option list" where
  "get_all_loader_tools self filter_fn =
     (let skill_names = list_skills self filter_fn
      in loader_loop self skill_names [])"

text \<open>
  \<^verbatim>\<open>
  def get_tools_for_skills(self, skill_names):
      tools = self.get_all_loader_tools()
      for name in skill_names:
          if name in self._skills:
              skill = self._skills[name]
              if skill.metadata.enabled:
                  tools.extend(skill.get_tools())
      return tools
  \<close>
\<close>

fun tools_loop ::
  "SkillRegistry \<Rightarrow> string list \<Rightarrow> BaseTool option list \<Rightarrow> BaseTool option list" where
  "tools_loop self [] tools = tools"
| "tools_loop self (nm # rest) tools =
     (case DAList.lookup (skills self) nm of
        None \<Rightarrow> tools_loop self rest tools
      | Some skill \<Rightarrow>
          if enabled (metadata skill)
          then tools_loop self rest (tools @ map Some (get_tools skill))
          else tools_loop self rest tools)"

definition get_tools_for_skills ::
  "SkillRegistry \<Rightarrow> string list \<Rightarrow> error + BaseTool option list" where
  "get_tools_for_skills self skill_names =
     (case get_all_loader_tools self None of
        Inl e \<Rightarrow> Inl e
      | Inr tools \<Rightarrow> Inr (tools_loop self skill_names tools))"








section \<open>The dynamic filter (middleware/skill_middleware.py)\<close>

text \<open>
  \<^verbatim>\<open>
  def __init__(self, skill_registry, verbose=False, filter_fn=None):
      super().__init__()
      self.registry = skill_registry
      self.verbose = verbose
      self.filter_fn = filter_fn
  \<close>
\<close>

record SkillMiddleware =
  registry :: SkillRegistry
  verbose :: bool
  filter_fn :: "(BaseTool option \<Rightarrow> bool) option"

definition SkillMiddleware_init ::
  "SkillRegistry \<Rightarrow> bool \<Rightarrow> (BaseTool option \<Rightarrow> bool) option \<Rightarrow> SkillMiddleware" where
  "SkillMiddleware_init skill_registry verbose_flag f =
     \<lparr>registry = skill_registry, verbose = verbose_flag, filter_fn = f\<rparr>"

text \<open>
  The agent state of a request is a dictionary or an object with attributes; only the
  entry \<^verbatim>\<open>skills_loaded\<close> is read.  A request carries its state (absent or
  \<^verbatim>\<open>None\<close> is \<open>None\<close>) and its tool list; its other fields are the record's extension.
\<close>

datatype agent_state =
    DictState "string \<rightharpoonup> string list"
  | ObjState "string \<rightharpoonup> string list"

record ModelRequest =
  state :: "agent_state option"
  tools :: "BaseTool option list"

text \<open>
  \<^verbatim>\<open>
  def _get_filtered_tools(self, skills_loaded):
      tools = self.registry.get_tools_for_skills(skills_loaded)
      return tools
  \<close>
\<close>

definition get_filtered_tools ::
  "SkillMiddleware \<Rightarrow> string list \<Rightarrow> error + BaseTool option list" where
  "get_filtered_tools self skills_loaded =
     (let tools = get_tools_for_skills (registry self) skills_loaded in tools)"

text \<open>
  \<^verbatim>\<open>[t.name for t in relevant_tools]\<close>, which raises on an element that is \<^verbatim>\<open>None\<close>.
\<close>

fun tool_names :: "BaseTool option list \<Rightarrow> error + string list" where
  "tool_names [] = Inr []"
| "tool_names (None # ts) = Inl AttributeError"
| "tool_names (Some t # ts) =
     (case tool_names ts of Inl e \<Rightarrow> Inl e | Inr ns \<Rightarrow> Inr (tool_name t # ns))"

text \<open>
  \<^verbatim>\<open>
  def wrap_model_call(self, request, handler):
      skills_loaded = []
      if hasattr(request, 'state') and request.state is not None:
          if isinstance(request.state, dict):
              skills_loaded = request.state.get("skills_loaded", [])
          else:
              skills_loaded = getattr(request.state, "skills_loaded", [])
      relevant_tools = self._get_filtered_tools(skills_loaded)
      if self.verbose:
          logger.info(f"[SkillMiddleware] Skills loaded: {skills_loaded}")
          logger.info(f"[SkillMiddleware] Filtered tools ({len(relevant_tools)}): "
                      f"{[t.name for t in relevant_tools]}")
      filtered_request = request.override(tools=relevant_tools)
      return handler(filtered_request)
  \<close>
  The result is the handler's response or the exception, and the log lines written.
\<close>

definition wrap_model_call ::
  "SkillMiddleware \<Rightarrow> 'a ModelRequest_scheme \<Rightarrow> ('a ModelRequest_scheme \<Rightarrow> 'r) \<Rightarrow>
   (error + 'r) \<times> log_event list" where
  "wrap_model_call self request handler =
     (let skills_loaded =
            (case state request of
               None \<Rightarrow> []
             | Some (DictState d) \<Rightarrow>
                 (case d ''skills_loaded'' of None \<Rightarrow> [] | Some v \<Rightarrow> v)
             | Some (ObjState attrs) \<Rightarrow>
                 (case attrs ''skills_loaded'' of None \<Rightarrow> [] | Some v \<Rightarrow> v))
      in case get_filtered_tools self skills_loaded of
           Inl e \<Rightarrow> (Inl e, [])
         | Inr relevant_tools \<Rightarrow>
             if verbose self then
               (case tool_names relevant_tools of
                  Inl e \<Rightarrow> (Inl e, [InfoSkillsLoaded False skills_loaded])
                | Inr ns \<Rightarrow>
                    (Inr (handler (request\<lparr>tools := relevant_tools\<rparr>)),
                     [InfoSkillsLoaded False skills_loaded,
                      InfoFilteredTools False (length relevant_tools) ns]))
             else (Inr (handler (request\<lparr>tools := relevant_tools\<rparr>)), []))"

text \<open>
  \<^verbatim>\<open>awrap_model_call\<close> is the same text with \<^verbatim>\<open>(async)\<close> in the two log lines
  and \<^verbatim>\<open>return await handler(filtered_request)\<close>: the value of the awaited call is the
  handler's response.
\<close>

definition awrap_model_call ::
  "SkillMiddleware \<Rightarrow> 'a ModelRequest_scheme \<Rightarrow> ('a ModelRequest_scheme \<Rightarrow> 'r) \<Rightarrow>
   (error + 'r) \<times> log_event list" where
  "awrap_model_call self request handler =
     (let skills_loaded =
            (case state request of
               None \<Rightarrow> []
             | Some (DictState d) \<Rightarrow>
                 (case d ''skills_loaded'' of None \<Rightarrow> [] | Some v \<Rightarrow> v)
             | Some (ObjState attrs) \<Rightarrow>
                 (case attrs ''skills_loaded'' of None \<Rightarrow> [] | Some v \<Rightarrow> v))
      in case get_filtered_tools self skills_loaded of
           Inl e \<Rightarrow> (Inl e, [])
         | Inr relevant_tools \<Rightarrow>
             if verbose self then
               (case tool_names relevant_tools of
                  Inl e \<Rightarrow> (Inl e, [InfoSkillsLoaded True skills_loaded])
                | Inr ns \<Rightarrow>
                    (Inr (handler (request\<lparr>tools := relevant_tools\<rparr>)),
                     [InfoSkillsLoaded True skills_loaded,
                      InfoFilteredTools True (length relevant_tools) ns]))
             else (Inr (handler (request\<lparr>tools := relevant_tools\<rparr>)), []))"

text \<open>
  The loaded names a request carries, read once for the statements below.
\<close>

definition request_skills_loaded :: "'a ModelRequest_scheme \<Rightarrow> string list" where
  "request_skills_loaded request =
     (case state request of
        None \<Rightarrow> []
      | Some (DictState d) \<Rightarrow> (case d ''skills_loaded'' of None \<Rightarrow> [] | Some v \<Rightarrow> v)
      | Some (ObjState attrs) \<Rightarrow> (case attrs ''skills_loaded'' of None \<Rightarrow> [] | Some v \<Rightarrow> v))"


section \<open>Example data\<close>

text \<open>
  The registry of the end-to-end example: skill \<open>A\<close> with the tools \<open>a1\<close>, \<open>a2\<close> and
  the loader \<open>loadA\<close>, skill \<open>B\<close> with the tool \<open>b1\<close> and the loader \<open>loadB\<close>,
  registered in this order.
\<close>

definition mk_metadata :: "string \<Rightarrow> string \<Rightarrow> bool \<Rightarrow> SkillMetadata" where
  "mk_metadata nm descr en =
     \<lparr>name = nm, description = descr, version = ''1.0.0'', tags = [],
      visibility = ''public'', dependencies = [], required_permissions = [],
      author = None, enabled = en\<rparr>"

definition skill_A :: BaseSkill where
  "skill_A = \<lparr>metadata = mk_metadata ''A'' ''first'' True,
              get_tools = [BaseTool ''a1'' ''x'', BaseTool ''a2'' ''y''],
              get_loader_tool = Some (BaseTool ''loadA'' ''load A'')\<rparr>"

definition skill_B :: BaseSkill where
  "skill_B = \<lparr>metadata = mk_metadata ''B'' ''second'' True,
              get_tools = [BaseTool ''b1'' ''z''],
              get_loader_tool = Some (BaseTool ''loadB'' ''load B'')\<rparr>"

definition registry_AB :: SkillRegistry where
  "registry_AB =
     fst (snd (register (fst (snd (register SkillRegistry_init skill_A))) skill_B))"


text \<open>
  A use of the registry over time: a sequence of \<open>register\<close> and \<open>unregister\<close> calls
  on a registry, each caller catching the exception of a failed call and going on with
  the registry as the call left it.
\<close>

datatype registry_op = Register BaseSkill | Unregister string

fun apply_ops :: "SkillRegistry \<Rightarrow> registry_op list \<Rightarrow> SkillRegistry" where
  "apply_ops self [] = self"
| "apply_ops self (Register skill # ops) = apply_ops (fst (snd (register self skill))) ops"
| "apply_ops self (Unregister nm # ops) = apply_ops (fst (snd (unregister self nm))) ops"








text \<open>
  A request of the example conversation after skill \<open>A\<close> was loaded, with the state a
  dictionary.
\<close>

definition request_A :: ModelRequest where
  "request_A = \<lparr>state = Some (DictState [''skills_loaded'' \<mapsto> [''A'']]), tools = []\<rparr>"


section \<open>Properties of the reducers\<close>

lemma accumulator_eq:
  "skill_list_accumulator current new = current @ [s \<leftarrow> new. s \<notin> set current]"
  by (simp add: skill_list_accumulator_def)

lemma load_each_snoc:
  "load_each reducer (ns @ [n]) = reducer (load_each reducer ns) [n]"
  by (simp add: load_each_def run_turns_def)

lemma load_each_accumulator:
  "distinct ns \<Longrightarrow> load_each skill_list_accumulator ns = ns"
proof (induction ns rule: rev_induct)
  case Nil
  show ?case by (simp add: load_each_def run_turns_def)
next
  case (snoc n ns)
  then show ?case by (simp add: load_each_snoc accumulator_eq)
qed

text \<open>
  C4.  The accumulator returns \<open>current\<close> followed by the items of \<open>incoming\<close> that are
  not in \<open>current\<close>, in their order; so \<open>current\<close> is a prefix of the result, loading N
  distinct names one per turn from the empty state gives exactly these N names in
  first-seen order, and signalling a name that is already present returns the state
  unchanged.
\<close>

theorem accumulator_spec:
  "skill_list_accumulator current incoming = current @ [s \<leftarrow> incoming. s \<notin> set current]
   \<and> take (length current) (skill_list_accumulator current incoming) = current
   \<and> (distinct ns \<longrightarrow> load_each skill_list_accumulator ns = ns
        \<and> length (load_each skill_list_accumulator ns) = length ns)
   \<and> (n \<in> set current \<longrightarrow> skill_list_accumulator current [n] = current)"
  by (simp add: accumulator_eq load_each_accumulator)

theorem accumulator_spec_witness:
  "distinct [''a'', ''b'', ''c''] \<and> ''b'' \<in> set [''a'', ''b'']
   \<and> load_each skill_list_accumulator [''a'', ''b'', ''c''] = [''a'', ''b'', ''c'']
   \<and> skill_list_accumulator [''a'', ''b''] [''b''] = [''a'', ''b'']"
  using accumulator_spec [of "[''a'', ''b'']" "[]" "[''a'', ''b'', ''c'']" "''b''"]
  by simp

lemma fifo_nonempty:
  "1 \<le> K \<Longrightarrow> current \<noteq> [] \<Longrightarrow>
   skill_list_fifo K current incoming =
     (let combined = current @ [s \<leftarrow> incoming. s \<notin> set current]
      in drop (length combined - nat K) combined)"
  by (simp add: skill_list_fifo_def py_slice_from_def Let_def nat_diff_distrib')

lemma fifo_empty:
  "1 \<le> K \<Longrightarrow> skill_list_fifo K [] incoming = take (nat K) incoming"
  by (simp add: skill_list_fifo_def py_slice_upto_def)

lemma fifo_length:
  "1 \<le> K \<Longrightarrow> length (skill_list_fifo K current incoming) \<le> nat K"
  by (cases "current = []") (auto simp add: fifo_nonempty fifo_empty Let_def)

lemma run_turns_fifo_length:
  "1 \<le> K \<Longrightarrow> length (run_turns (skill_list_fifo K) [] inputs) \<le> nat K"
  by (induction inputs rule: rev_induct) (simp_all add: run_turns_def fifo_length)

lemma load_each_fifo:
  "1 \<le> K \<Longrightarrow> distinct ns \<Longrightarrow>
   load_each (skill_list_fifo K) ns = drop (length ns - nat K) ns"
proof (induction ns rule: rev_induct)
  case Nil
  then show ?case by (simp add: load_each_def run_turns_def)
next
  case (snoc n ns)
  show ?case
  proof (cases "ns = []")
    case True
    with snoc.prems show ?thesis
      by (simp add: load_each_def run_turns_def fifo_empty)
  next
    case False
    from snoc have IH: "load_each (skill_list_fifo K) ns = drop (length ns - nat K) ns"
      and n: "n \<notin> set ns" by simp_all
    from False snoc.prems(1) have "length ns - nat K < length ns"
      by (cases ns) auto
    then have ne: "drop (length ns - nat K) ns \<noteq> []" by simp
    from n have n': "n \<notin> set (drop (length ns - nat K) ns)"
      by (auto dest: in_set_dropD)
    have step: "load_each (skill_list_fifo K) (ns @ [n]) =
        drop (Suc (length (drop (length ns - nat K) ns)) - nat K)
          (drop (length ns - nat K) ns @ [n])"
      using snoc.prems(1) ne n'
      by (simp add: load_each_snoc IH fifo_nonempty Let_def)
    show ?thesis
    proof (cases "length ns < nat K")
      case True
      then show ?thesis by (simp add: step)
    next
      case False
      with snoc.prems(1) have "Suc (length ns) - nat K = Suc (length ns - nat K)"
        and "Suc (length (drop (length ns - nat K) ns)) - nat K = 1"
        and "Suc (length ns - nat K) \<le> length ns"
        by auto
      then show ?thesis by (simp add: step)
    qed
  qed
qed

lemma fifo_reload:
  "1 \<le> K \<Longrightarrow> n \<in> set current \<Longrightarrow> length current \<le> nat K \<Longrightarrow>
   skill_list_fifo K current [n] = current"
  by (cases "current = []") (auto simp add: fifo_nonempty)

text \<open>
  C3.  For \<open>K \<ge> 1\<close> the FIFO reducer returns the last \<open>K\<close> entries of the list made
  of \<open>current\<close> followed by the items of \<open>incoming\<close> that are not in \<open>current\<close> when
  \<open>current\<close> is not empty, and the first \<open>K\<close> entries of \<open>incoming\<close> when it is.
  Loading \<open>K + 1\<close> distinct names one per turn from the empty state leaves the last \<open>K\<close>
  of them: the state has length \<open>K\<close> and the earliest name is gone.  Signalling a name
  that is already in \<open>current\<close> gives the last \<open>K\<close> entries of \<open>current\<close> in their
  order, and in a state reached from the empty one it returns the state unchanged: the
  name is not moved.
\<close>

theorem fifo_spec:
  assumes "1 \<le> K"
  shows "(current \<noteq> [] \<longrightarrow>
            skill_list_fifo K current incoming =
              (let combined = current @ [s \<leftarrow> incoming. s \<notin> set current]
               in drop (length combined - nat K) combined))
   \<and> skill_list_fifo K [] incoming = take (nat K) incoming
   \<and> (distinct ns \<and> length ns = nat K + 1 \<longrightarrow>
          load_each (skill_list_fifo K) ns = tl ns
        \<and> length (load_each (skill_list_fifo K) ns) = nat K
        \<and> hd ns \<notin> set (load_each (skill_list_fifo K) ns))
   \<and> (n \<in> set current \<longrightarrow>
          skill_list_fifo K current [n] = drop (length current - nat K) current)
   \<and> (n \<in> set (run_turns (skill_list_fifo K) [] inputs) \<longrightarrow>
          skill_list_fifo K (run_turns (skill_list_fifo K) [] inputs) [n] =
            run_turns (skill_list_fifo K) [] inputs)"
proof -
  have seq: "load_each (skill_list_fifo K) ns = tl ns
        \<and> length (load_each (skill_list_fifo K) ns) = nat K
        \<and> hd ns \<notin> set (load_each (skill_list_fifo K) ns)"
    if "distinct ns" and "length ns = nat K + 1"
  proof -
    from that obtain x xs where ns: "ns = x # xs" by (cases ns) auto
    with that have "load_each (skill_list_fifo K) ns = xs"
      using load_each_fifo [OF assms, of ns] by simp
    with that ns show ?thesis by simp
  qed
  have again: "skill_list_fifo K current [n] = drop (length current - nat K) current"
    if "n \<in> set current"
  proof -
    from that have "current \<noteq> []" by auto
    with that show ?thesis
      using fifo_nonempty [OF assms, of current "[n]"] by simp
  qed
  have reload: "skill_list_fifo K (run_turns (skill_list_fifo K) [] inputs) [n] =
            run_turns (skill_list_fifo K) [] inputs"
    if "n \<in> set (run_turns (skill_list_fifo K) [] inputs)"
    using that assms by (simp add: fifo_reload run_turns_fifo_length)
  show ?thesis
    using fifo_nonempty [OF assms, of current incoming] fifo_empty [OF assms, of incoming]
      seq again reload
    by blast
qed

theorem fifo_spec_witness:
  "(1::int) \<le> 2 \<and> [''a'', ''b'', ''c''] \<noteq> [] \<and> distinct [''a'', ''b'', ''c'']
   \<and> length [''a'', ''b'', ''c''] = nat 2 + 1
   \<and> ''b'' \<in> set [''a'', ''b'', ''c'']
   \<and> ''b'' \<in> set (run_turns (skill_list_fifo 2) [] [[''a''], [''b'']])
   \<and> skill_list_fifo 2 [''a'', ''b'', ''c''] [''d'', ''a''] = [''c'', ''d'']
   \<and> load_each (skill_list_fifo 2) [''a'', ''b'', ''c''] = [''b'', ''c'']
   \<and> skill_list_fifo 2 [''a'', ''b'', ''c''] [''b''] = [''b'', ''c'']
   \<and> skill_list_fifo 2 (run_turns (skill_list_fifo 2) [] [[''a''], [''b'']]) [''b''] =
       [''a'', ''b'']"
proof -
  have K: "(1::int) \<le> 2" by simp
  have st: "run_turns (skill_list_fifo 2) [] [[''a''], [''b'']] = [''a'', ''b'']"
    by (simp add: run_turns_def skill_list_fifo_def py_slice_upto_def py_slice_from_def)
  show ?thesis
    using fifo_spec [OF K, of "[''a'', ''b'', ''c'']" "[''d'', ''a'']" "[''a'', ''b'', ''c'']"
        "''b''" "[[''a''], [''b'']]"]
    by (simp add: st)
qed

lemma combined_distinct:
  "distinct current \<Longrightarrow> distinct incoming \<Longrightarrow>
   distinct (current @ [s \<leftarrow> incoming. s \<notin> set current])"
  by auto

lemma py_slice_distinct:
  "distinct xs \<Longrightarrow> distinct (py_slice_upto xs k) \<and> distinct (py_slice_from xs k)"
  by (simp add: py_slice_upto_def py_slice_from_def)

lemma run_turns_distinct:
  assumes step: "\<And>c i. distinct c \<Longrightarrow> distinct i \<Longrightarrow> distinct (f c i)"
  shows "(\<forall>i \<in> set inputs. distinct i) \<Longrightarrow> distinct (run_turns f [] inputs)"
proof (induction inputs rule: rev_induct)
  case Nil
  show ?case by (simp add: run_turns_def)
next
  case (snoc i inputs)
  then have "distinct (run_turns f [] inputs)" and "distinct i" by simp_all
  then have "distinct (f (run_turns f [] inputs) i)" by (rule step)
  then show ?case by (simp add: run_turns_def)
qed

lemma accumulator_distinct:
  "distinct current \<Longrightarrow> distinct incoming \<Longrightarrow>
   distinct (skill_list_accumulator current incoming)"
  using combined_distinct [of current incoming]
  by (simp add: accumulator_eq del: distinct_append)

lemma fifo_distinct:
  "distinct current \<Longrightarrow> distinct incoming \<Longrightarrow>
   distinct (skill_list_fifo K current incoming)"
  using combined_distinct [of current incoming]
  by (simp add: skill_list_fifo_def py_slice_distinct Let_def del: distinct_append)

text \<open>
  C2 (as amended).  The replace policy returns \<open>incoming\<close> itself, so its result is
  free of duplicates exactly when \<open>incoming\<close> is.  When \<open>current\<close> and \<open>incoming\<close> are
  each free of duplicates, the result of the accumulate policy and of the FIFO policy,
  for every bound \<open>K\<close>, is free of duplicates.  Hence under every policy the state of a
  conversation that starts empty has no duplicate as long as the list signalled in each
  turn has none.
\<close>

theorem reducers_distinct:
  "(distinct (skill_list_reducer current incoming) \<longleftrightarrow> distinct incoming)
   \<and> (distinct current \<and> distinct incoming \<longrightarrow>
          distinct (skill_list_accumulator current incoming)
        \<and> distinct (skill_list_fifo K current incoming))
   \<and> ((\<forall>i \<in> set inputs. distinct i) \<longrightarrow>
          distinct (run_turns skill_list_reducer [] inputs)
        \<and> distinct (run_turns skill_list_accumulator [] inputs)
        \<and> distinct (run_turns (skill_list_fifo K) [] inputs))"
proof -
  have "distinct (run_turns skill_list_reducer [] inputs)"
    if "\<forall>i \<in> set inputs. distinct i"
    using that by (rule run_turns_distinct [rotated]) (simp add: skill_list_reducer_def)
  moreover have "distinct (run_turns skill_list_accumulator [] inputs)"
    if "\<forall>i \<in> set inputs. distinct i"
    using that by (rule run_turns_distinct [rotated]) (rule accumulator_distinct)
  moreover have "distinct (run_turns (skill_list_fifo K) [] inputs)"
    if "\<forall>i \<in> set inputs. distinct i"
    using that by (rule run_turns_distinct [rotated]) (rule fifo_distinct)
  ultimately show ?thesis
    by (simp add: skill_list_reducer_def accumulator_distinct fifo_distinct)
qed

theorem reducers_distinct_witness:
  "distinct [''a'', ''b''] \<and> distinct [''b'', ''c'']
   \<and> distinct (skill_list_reducer [''a'', ''b''] [''b'', ''c''])
   \<and> distinct (skill_list_accumulator [''a'', ''b''] [''b'', ''c''])
   \<and> distinct (skill_list_fifo 2 [''a'', ''b''] [''b'', ''c''])
   \<and> distinct (run_turns skill_list_reducer [] [[''a'', ''b''], [''b'', ''c'']])
   \<and> distinct (run_turns skill_list_accumulator [] [[''a'', ''b''], [''b'', ''c'']])
   \<and> distinct (run_turns (skill_list_fifo 2) [] [[''a'', ''b''], [''b'', ''c'']])"
proof -
  have c: "distinct [''a'', ''b'']" and i: "distinct [''b'', ''c'']" by simp_all
  have t: "\<forall>i \<in> set [[''a'', ''b''], [''b'', ''c'']]. distinct i" by simp
  show ?thesis
    using c i t
      reducers_distinct [of "[''a'', ''b'']" "[''b'', ''c'']" 2 "[[''a'', ''b''], [''b'', ''c'']]"]
    by blast
qed

text \<open>
  The claim as stated fails: the replace policy returns \<open>incoming\<close> as it is, and the
  other two policies compare the items of \<open>incoming\<close> with \<open>current\<close> only, not with
  each other, and return \<open>incoming\<close> (or a slice of it) when \<open>current\<close> is empty.
\<close>

theorem reducers_duplicate_counterexample:
  "\<not> distinct (skill_list_reducer [] [''a'', ''a''])
   \<and> \<not> distinct (skill_list_accumulator [''a''] [''b'', ''b''])
   \<and> \<not> distinct (skill_list_accumulator [] [''b'', ''b''])
   \<and> \<not> distinct (skill_list_fifo 3 [''a''] [''b'', ''b''])
   \<and> \<not> distinct (skill_list_fifo 3 [] [''b'', ''b''])"
  by (simp add: skill_list_reducer_def skill_list_accumulator_def skill_list_fifo_def
      py_slice_from_def py_slice_upto_def)


section \<open>Properties of the registry\<close>

lemma lookup_entry:
  "(k, v) \<in> set (DAList.impl_of d) \<Longrightarrow> DAList.lookup d k = Some v"
  by (simp add: lookup.rep_eq)

lemma has_key_keys: "has_key d k \<longleftrightarrow> k \<in> set (keys d)"
  by (simp add: has_key_def keys_def lookup.rep_eq map_of_eq_None_iff)

lemma keys_update:
  "keys (DAList.update k v d) = (if has_key d k then keys d else keys d @ [k])"
  by (simp add: has_key_keys) (simp add: keys_def update.rep_eq update_keys)

lemma distinct_keys: "distinct (keys d)"
  by (simp add: keys_def)

lemma registry_AB_skills:
  "DAList.impl_of (skills registry_AB) = [(''A'', skill_A), (''B'', skill_B)]"
  by (simp add: registry_AB_def register_def validate_def SkillRegistry_init_def
      skill_A_def skill_B_def mk_metadata_def has_key_def update.rep_eq empty.rep_eq Let_def)

lemma registry_AB_lookup:
  "DAList.lookup (skills registry_AB) = map_of [(''A'', skill_A), (''B'', skill_B)]"
  by (simp add: lookup.rep_eq registry_AB_skills)

lemma loader_loop_entries:
  "(\<And>k v. (k, v) \<in> set ps \<Longrightarrow> DAList.lookup (skills r) k = Some v) \<Longrightarrow>
   loader_loop r (map fst ps) acc =
     Inr (acc @ map (\<lambda>(nm, skill). get_loader_tool skill)
                  (filter (\<lambda>(nm, skill). enabled (metadata skill)) ps))"
proof (induction ps arbitrary: acc)
  case Nil
  show ?case by simp
next
  case (Cons p ps)
  obtain k v where p: "p = (k, v)" by (cases p)
  from Cons.prems have look: "DAList.lookup (skills r) k = Some v" by (simp add: p)
  have rest: "\<And>acc'. loader_loop r (map fst ps) acc' =
     Inr (acc' @ map (\<lambda>(nm, skill). get_loader_tool skill)
                  (filter (\<lambda>(nm, skill). enabled (metadata skill)) ps))"
    using Cons.IH Cons.prems by simp
  show ?case by (simp add: p look rest)
qed

lemma get_all_loader_tools_None:
  "get_all_loader_tools r None =
     Inr (map (\<lambda>(nm, skill). get_loader_tool skill)
            (filter (\<lambda>(nm, skill). enabled (metadata skill)) (DAList.impl_of (skills r))))"
  using loader_loop_entries [of "DAList.impl_of (skills r)" r "[]"]
  by (simp add: get_all_loader_tools_def list_skills_def keys_def lookup_entry)

lemma tools_loop_eq:
  "tools_loop r names acc =
     acc @ concat (map (\<lambda>nm. case DAList.lookup (skills r) nm of
                               None \<Rightarrow> []
                             | Some skill \<Rightarrow>
                                 if enabled (metadata skill) then map Some (get_tools skill)
                                 else []) names)"
  by (induction names arbitrary: acc) (simp_all split: option.splits)

text \<open>
  C1.  Without a filter, \<open>get_all_loader_tools\<close> returns the loader of every enabled
  registered skill, in registration order.  \<open>get_tools_for_skills\<close> never raises: it
  returns these loaders followed, for each given name in the given order, by the tools
  of the skill registered under the name if there is one and it is enabled, and by
  nothing otherwise.  With no name given it returns the loaders alone.
\<close>

theorem get_tools_for_skills_spec:
  "get_all_loader_tools r None =
     Inr (map (\<lambda>(nm, skill). get_loader_tool skill)
            (filter (\<lambda>(nm, skill). enabled (metadata skill)) (DAList.impl_of (skills r))))
   \<and> (\<exists>loaders. get_all_loader_tools r None = Inr loaders
        \<and> get_tools_for_skills r loaded_names =
            Inr (loaders @ concat (map (\<lambda>nm. case DAList.lookup (skills r) nm of
                               None \<Rightarrow> []
                             | Some skill \<Rightarrow>
                                 if enabled (metadata skill) then map Some (get_tools skill)
                                 else []) loaded_names)))
   \<and> get_tools_for_skills r [] = get_all_loader_tools r None"
  by (simp add: get_tools_for_skills_def get_all_loader_tools_None tools_loop_eq)

theorem get_tools_for_skills_spec_witness:
  "get_tools_for_skills registry_AB [''A'', ''C''] =
     Inr [Some (BaseTool ''loadA'' ''load A''), Some (BaseTool ''loadB'' ''load B''),
          Some (BaseTool ''a1'' ''x''), Some (BaseTool ''a2'' ''y'')]
   \<and> get_tools_for_skills registry_AB [] =
     Inr [Some (BaseTool ''loadA'' ''load A''), Some (BaseTool ''loadB'' ''load B'')]"
  using get_tools_for_skills_spec [of registry_AB "[''A'', ''C'']"]
  by (auto simp add: registry_AB_skills registry_AB_lookup skill_A_def skill_B_def
      mk_metadata_def)


lemma register_valid:
  "validate skill = Inr True \<Longrightarrow>
   register r skill =
     (Inr (),
      r\<lparr>skills := DAList.update (name (metadata skill)) skill (skills r),
        metadata_cache :=
          DAList.update (name (metadata skill)) (metadata skill) (metadata_cache r)\<rparr>,
      (if has_key (skills r) (name (metadata skill))
       then [WarnOverwriting (name (metadata skill))] else [])
      @ [InfoRegistered (name (metadata skill)) (version (metadata skill))])"
  by (simp add: register_def Let_def)

lemma register_invalid:
  "validate skill = Inl e \<Longrightarrow> register r skill = (Inl e, r, [])"
  by (simp add: register_def)

lemma validate_cases:
  "validate skill = Inr True
   \<or> (\<exists>msg. validate skill = Inl (ValueError msg))"
  by (simp add: validate_def)

lemma validate_ok_iff:
  "validate skill = Inr True \<longleftrightarrow>
     name (metadata skill) \<noteq> [] \<and> description (metadata skill) \<noteq> []
     \<and> get_tools skill \<noteq> [] \<and> get_loader_tool skill \<noteq> None"
  by (simp add: validate_def)

lemma len_keys: "len r = length (keys (skills r))"
  by (simp add: len_def keys_def)

text \<open>
  C5.  Registering two valid skills with the same name, one after the other, on any
  registry: neither call raises, the second call does not change the number of entries,
  the name occurs once among the keys, and \<open>get\<close> returns the second skill.  On the
  empty registry the size afterwards is 1.
\<close>

theorem register_same_name:
  assumes "validate A = Inr True" and "validate B = Inr True"
    and "name (metadata A) = n" and "name (metadata B) = n"
  shows "(case register r A of (resA, rA, logA) \<Rightarrow>
            (case register rA B of (resB, rB, logB) \<Rightarrow>
               resA = Inr () \<and> resB = Inr ()
               \<and> get rB n = Inr B
               \<and> len rB = len rA
               \<and> length (filter (\<lambda>k. k = n) (keys (skills rB))) = 1
               \<and> WarnOverwriting n \<in> set logB
               \<and> (r = SkillRegistry_init \<longrightarrow> len rB = 1)))"
proof -
  let ?rA = "r\<lparr>skills := DAList.update n A (skills r),
        metadata_cache := DAList.update n (metadata A) (metadata_cache r)\<rparr>"
  let ?rB = "?rA\<lparr>skills := DAList.update n B (skills ?rA),
        metadata_cache := DAList.update n (metadata B) (metadata_cache ?rA)\<rparr>"
  have hk: "has_key (skills ?rA) n"
    by (simp add: has_key_def)
  have keysB: "keys (skills ?rB) = keys (skills ?rA)"
    using hk by (simp add: keys_update)
  have once: "length (filter (\<lambda>k. k = n) (keys (skills ?rA))) = 1"
  proof -
    have "n \<in> set (keys (skills ?rA))" using hk by (simp add: has_key_keys)
    moreover have "{k. k = n} \<inter> set (keys (skills ?rA)) = {n}"
      using calculation by auto
    ultimately show ?thesis
      using distinct_length_filter [OF distinct_keys, of "\<lambda>k. k = n" "skills ?rA"]
      by simp
  qed
  have init: "len ?rA = 1" if "r = SkillRegistry_init"
    using that by (simp add: len_def SkillRegistry_init_def update.rep_eq empty.rep_eq)
  have regA: "register r A = (Inr (), ?rA,
      (if has_key (skills r) n then [WarnOverwriting n] else [])
      @ [InfoRegistered n (version (metadata A))])"
    using register_valid [OF assms(1), of r] assms(3) by simp
  have regB: "register ?rA B = (Inr (), ?rB,
      [WarnOverwriting n, InfoRegistered n (version (metadata B))])"
    using register_valid [OF assms(2), of ?rA] assms(4) hk by simp
  have getB: "get ?rB n = Inr B"
    by (simp add: get_def)
  have lenB: "len ?rB = len ?rA"
    using keysB by (simp only: len_keys)
  show ?thesis
    using once init getB lenB keysB
    by (simp only: regA regB prod.case) simp
qed

theorem register_same_name_witness:
  "validate skill_A = Inr True
   \<and> validate (skill_B\<lparr>metadata := mk_metadata ''A'' ''other'' True\<rparr>) = Inr True
   \<and> (case register SkillRegistry_init skill_A of (resA, rA, logA) \<Rightarrow>
        (case register rA (skill_B\<lparr>metadata := mk_metadata ''A'' ''other'' True\<rparr>) of
           (resB, rB, logB) \<Rightarrow>
             resA = Inr () \<and> resB = Inr ()
             \<and> get rB ''A'' = Inr (skill_B\<lparr>metadata := mk_metadata ''A'' ''other'' True\<rparr>)
             \<and> len rB = len rA
             \<and> length (filter (\<lambda>k. k = ''A'') (keys (skills rB))) = 1
             \<and> WarnOverwriting ''A'' \<in> set logB
             \<and> len rB = 1))"
proof -
  have a: "validate skill_A = Inr True"
    by (simp add: validate_def skill_A_def mk_metadata_def)
  have b: "validate (skill_B\<lparr>metadata := mk_metadata ''A'' ''other'' True\<rparr>) = Inr True"
    by (simp add: validate_def skill_B_def mk_metadata_def)
  have na: "name (metadata skill_A) = ''A''"
    by (simp add: skill_A_def mk_metadata_def)
  have nb: "name (metadata (skill_B\<lparr>metadata := mk_metadata ''A'' ''other'' True\<rparr>)) = ''A''"
    by (simp add: mk_metadata_def)
  show ?thesis
    using a b register_same_name [OF a b na nb, of SkillRegistry_init]
    by (simp split: prod.splits)
qed

text \<open>
  C6.  \<open>register\<close> raises exactly when the name is empty, the description is empty,
  the skill has no tool or it has no loader tool; the exception is then the
  \<open>ValueError\<close> of \<open>validate\<close>, the registry is left as it was and nothing is logged.
  Otherwise \<open>register\<close> returns normally.
\<close>

theorem register_validation:
  "((\<exists>e. fst (register r skill) = Inl e) \<longleftrightarrow>
      name (metadata skill) = [] \<or> description (metadata skill) = []
      \<or> get_tools skill = [] \<or> get_loader_tool skill = None)
   \<and> (\<forall>e. fst (register r skill) = Inl e \<longrightarrow>
         (\<exists>msg. e = ValueError msg) \<and> register r skill = (Inl e, r, []))
   \<and> (fst (register r skill) = Inr () \<or> (\<exists>msg. fst (register r skill) = Inl (ValueError msg)))"
proof (cases "validate skill = Inr True")
  case True
  then show ?thesis
    using validate_ok_iff [of skill] by (simp add: register_valid)
next
  case False
  then obtain msg where v: "validate skill = Inl (ValueError msg)"
    using validate_cases [of skill] by blast
  with False show ?thesis
    using validate_ok_iff [of skill] by (auto simp add: register_invalid)
qed

theorem register_validation_witness:
  "get_tools (skill_A\<lparr>get_tools := []\<rparr>) = []
   \<and> register registry_AB (skill_A\<lparr>get_tools := []\<rparr>) =
       (Inl (ValueError ''Skill must provide at least one tool''), registry_AB, [])"
proof -
  have e: "fst (register registry_AB (skill_A\<lparr>get_tools := []\<rparr>)) =
      Inl (ValueError ''Skill must provide at least one tool'')"
    by (simp add: register_def validate_def skill_A_def mk_metadata_def)
  show ?thesis
    using e register_validation [of registry_AB "skill_A\<lparr>get_tools := []\<rparr>"]
    by simp
qed

lemma names_ok_register:
  assumes "\<And>k s. DAList.lookup (skills r) k = Some s \<Longrightarrow> name (metadata s) = k"
    and "DAList.lookup (skills (fst (snd (register r skill)))) k = Some s"
  shows "name (metadata s) = k"
proof (cases "validate skill = Inr True")
  case True
  with assms show ?thesis
    by (auto simp add: register_valid lookup_update split: if_splits)
next
  case False
  then obtain msg where "validate skill = Inl (ValueError msg)"
    using validate_cases [of skill] by blast
  with assms show ?thesis by (simp add: register_invalid)
qed

lemma names_ok_unregister:
  assumes "\<And>k s. DAList.lookup (skills r) k = Some s \<Longrightarrow> name (metadata s) = k"
    and "DAList.lookup (skills (fst (snd (unregister r nm)))) k = Some s"
  shows "name (metadata s) = k"
  using assms by (auto simp add: unregister_def Let_def split: if_splits)

lemma names_ok_apply_ops:
  "(\<And>k s. DAList.lookup (skills r) k = Some s \<Longrightarrow> name (metadata s) = k) \<Longrightarrow>
   DAList.lookup (skills (apply_ops r ops)) k = Some s \<Longrightarrow> name (metadata s) = k"
proof (induction r ops arbitrary: k s rule: apply_ops.induct)
  case (1 self)
  then show ?case by simp
next
  case (2 self skill ops)
  show ?case
  proof (rule "2.IH")
    show "DAList.lookup (skills (apply_ops (fst (snd (register self skill))) ops)) k = Some s"
      using "2.prems"(2) by simp
    show "\<And>k s. DAList.lookup (skills (fst (snd (register self skill)))) k = Some s
        \<Longrightarrow> name (metadata s) = k"
      using names_ok_register [of self skill] "2.prems"(1) by blast
  qed
next
  case (3 self nm ops)
  show ?case
  proof (rule "3.IH")
    show "DAList.lookup (skills (apply_ops (fst (snd (unregister self nm))) ops)) k = Some s"
      using "3.prems"(2) by simp
    show "\<And>k s. DAList.lookup (skills (fst (snd (unregister self nm)))) k = Some s
        \<Longrightarrow> name (metadata s) = k"
      using names_ok_unregister [of self nm] "3.prems"(1) by blast
  qed
qed

text \<open>
  C7.  \<open>get\<close> raises exactly when no skill is registered under the name, and the
  exception is then \<open>SkillNotFoundError\<close> with that name.  After a successful
  \<open>register\<close>, \<open>get\<close> on the skill's name returns the skill; and in every registry
  built from the empty one by \<open>register\<close> and \<open>unregister\<close> calls, whatever \<open>get\<close>
  returns for a name has that name in its metadata.
\<close>

theorem get_spec:
  "((\<exists>e. get r n = Inl e) \<longleftrightarrow> \<not> contains r n)
   \<and> (\<not> contains r n \<longrightarrow> get r n = Inl (SkillNotFoundError n))
   \<and> (fst (register r skill) = Inr () \<longrightarrow>
        get (fst (snd (register r skill))) (name (metadata skill)) = Inr skill)
   \<and> (get (apply_ops SkillRegistry_init ops) n = Inr s \<longrightarrow> name (metadata s) = n)"
proof -
  have reg: "get (fst (snd (register r skill))) (name (metadata skill)) = Inr skill"
    if "fst (register r skill) = Inr ()"
  proof -
    from that have "validate skill = Inr True"
      using validate_cases [of skill] by (auto simp add: register_invalid)
    then show ?thesis by (simp add: register_valid get_def)
  qed
  have reach: "name (metadata s) = n" if "get (apply_ops SkillRegistry_init ops) n = Inr s"
  proof -
    from that have "DAList.lookup (skills (apply_ops SkillRegistry_init ops)) n = Some s"
      by (simp add: get_def split: option.splits)
    then show ?thesis
      using names_ok_apply_ops [of SkillRegistry_init ops n s]
      by (simp add: SkillRegistry_init_def)
  qed
  show ?thesis
    using reg reach
    by (auto simp add: get_def contains_def has_key_def split: option.splits)
qed

theorem get_spec_witness:
  "\<not> contains registry_AB ''C'' \<and> get registry_AB ''C'' = Inl (SkillNotFoundError ''C'')
   \<and> fst (register SkillRegistry_init skill_A) = Inr ()
   \<and> get (fst (snd (register SkillRegistry_init skill_A))) (name (metadata skill_A)) =
       Inr skill_A
   \<and> get (apply_ops SkillRegistry_init [Register skill_A, Register skill_B, Unregister ''A''])
       ''B'' = Inr skill_B
   \<and> name (metadata skill_B) = ''B''"
proof -
  have c: "\<not> contains registry_AB ''C''"
    by (simp add: contains_def has_key_def registry_AB_lookup)
  have r: "fst (register SkillRegistry_init skill_A) = Inr ()"
    by (simp add: register_def validate_def skill_A_def mk_metadata_def Let_def)
  have g: "get (apply_ops SkillRegistry_init [Register skill_A, Register skill_B,
      Unregister ''A'']) ''B'' = Inr skill_B"
    by (simp add: register_def unregister_def validate_def skill_A_def skill_B_def
        mk_metadata_def SkillRegistry_init_def get_def has_key_def Let_def)
  show ?thesis
    using c r g
      get_spec [of registry_AB "''C''" skill_A
        "[Register skill_A, Register skill_B, Unregister ''A'']" skill_B]
      get_spec [of SkillRegistry_init "''B''" skill_A
        "[Register skill_A, Register skill_B, Unregister ''A'']" skill_B]
    by simp
qed






lemma map_filter_append:
  "List.map_filter f (xs @ ys) = List.map_filter f xs @ List.map_filter f ys"
  by (simp add: List.map_filter_def)













section \<open>Properties of the dynamic filter\<close>

lemma get_tools_for_skills_total:
  "\<exists>relevant. get_tools_for_skills r names = Inr relevant"
  by (simp add: get_tools_for_skills_def get_all_loader_tools_None)

lemma tool_names_None:
  "None \<in> set ts \<Longrightarrow> tool_names ts = Inl AttributeError"
  by (induction ts rule: tool_names.induct) auto

lemma tool_names_Some:
  "None \<notin> set ts \<Longrightarrow> tool_names ts = Inr (map (\<lambda>t. tool_name (the t)) ts)"
  by (induction ts rule: tool_names.induct) auto

lemma wrap_model_call_result:
  assumes "get_tools_for_skills (registry mw) (request_skills_loaded req) = Inr relevant"
  shows "fst (wrap_model_call mw req h) =
      (if verbose mw \<and> None \<in> set relevant then Inl AttributeError
       else Inr (h (req\<lparr>tools := relevant\<rparr>)))"
proof (cases "None \<in> set relevant")
  case True
  then show ?thesis
    using assms
    by (simp add: wrap_model_call_def get_filtered_tools_def request_skills_loaded_def
        tool_names_None Let_def)
next
  case False
  then show ?thesis
    using assms
    by (simp add: wrap_model_call_def get_filtered_tools_def request_skills_loaded_def
        tool_names_Some Let_def)
qed

lemma awrap_model_call_result:
  assumes "get_tools_for_skills (registry mw) (request_skills_loaded req) = Inr relevant"
  shows "fst (awrap_model_call mw req h) =
      (if verbose mw \<and> None \<in> set relevant then Inl AttributeError
       else Inr (h (req\<lparr>tools := relevant\<rparr>)))"
proof (cases "None \<in> set relevant")
  case True
  then show ?thesis
    using assms
    by (simp add: awrap_model_call_def get_filtered_tools_def request_skills_loaded_def
        tool_names_None Let_def)
next
  case False
  then show ?thesis
    using assms
    by (simp add: awrap_model_call_def get_filtered_tools_def request_skills_loaded_def
        tool_names_Some Let_def)
qed

lemma valid_register:
  assumes "\<And>k s. DAList.lookup (skills r) k = Some s \<Longrightarrow> validate s = Inr True"
    and "DAList.lookup (skills (fst (snd (register r skill)))) k = Some s"
  shows "validate s = Inr True"
proof (cases "validate skill = Inr True")
  case True
  with assms show ?thesis
    by (auto simp add: register_valid lookup_update split: if_splits)
next
  case False
  then obtain msg where "validate skill = Inl (ValueError msg)"
    using validate_cases [of skill] by blast
  with assms show ?thesis by (simp add: register_invalid)
qed

lemma valid_unregister:
  assumes "\<And>k s. DAList.lookup (skills r) k = Some s \<Longrightarrow> validate s = Inr True"
    and "DAList.lookup (skills (fst (snd (unregister r nm)))) k = Some s"
  shows "validate s = Inr True"
  using assms by (auto simp add: unregister_def Let_def split: if_splits)

lemma valid_apply_ops:
  "(\<And>k s. DAList.lookup (skills r) k = Some s \<Longrightarrow> validate s = Inr True) \<Longrightarrow>
   DAList.lookup (skills (apply_ops r ops)) k = Some s \<Longrightarrow> validate s = Inr True"
proof (induction r ops arbitrary: k s rule: apply_ops.induct)
  case (1 self)
  then show ?case by simp
next
  case (2 self skill ops)
  show ?case
  proof (rule "2.IH")
    show "DAList.lookup (skills (apply_ops (fst (snd (register self skill))) ops)) k = Some s"
      using "2.prems"(2) by simp
    show "\<And>k s. DAList.lookup (skills (fst (snd (register self skill)))) k = Some s
        \<Longrightarrow> validate s = Inr True"
      using valid_register [of self skill] "2.prems"(1) by blast
  qed
next
  case (3 self nm ops)
  show ?case
  proof (rule "3.IH")
    show "DAList.lookup (skills (apply_ops (fst (snd (unregister self nm))) ops)) k = Some s"
      using "3.prems"(2) by simp
    show "\<And>k s. DAList.lookup (skills (fst (snd (unregister self nm)))) k = Some s
        \<Longrightarrow> validate s = Inr True"
      using valid_unregister [of self nm] "3.prems"(1) by blast
  qed
qed

lemma built_registry_tools:
  assumes "get_tools_for_skills (apply_ops SkillRegistry_init ops) names = Inr relevant"
  shows "None \<notin> set relevant"
proof -
  let ?r = "apply_ops SkillRegistry_init ops"
  have valid: "validate s = Inr True" if "(k, s) \<in> set (DAList.impl_of (skills ?r))" for k s
  proof (rule valid_apply_ops [of SkillRegistry_init ops k s])
    show "DAList.lookup (skills ?r) k = Some s"
      by (rule lookup_entry [OF that])
    show "\<And>k s. DAList.lookup (skills SkillRegistry_init) k = Some s \<Longrightarrow>
        validate s = Inr True"
      by (simp add: SkillRegistry_init_def)
  qed
  have loader: "get_loader_tool s \<noteq> None"
    if "(k, s) \<in> set (DAList.impl_of (skills ?r))" for k s
    using valid [OF that] by (simp add: validate_ok_iff)
  have A: "None \<notin> set (map (\<lambda>(nm, skill). get_loader_tool skill)
        (filter (\<lambda>(nm, skill). enabled (metadata skill)) (DAList.impl_of (skills ?r))))"
  proof
    assume "None \<in> set (map (\<lambda>(nm, skill). get_loader_tool skill)
        (filter (\<lambda>(nm, skill). enabled (metadata skill)) (DAList.impl_of (skills ?r))))"
    then obtain k s where "(k, s) \<in> set (DAList.impl_of (skills ?r))"
      and "get_loader_tool s = None"
      by auto
    with loader show False by blast
  qed
  have B: "None \<notin> set (concat (map (\<lambda>nm. case DAList.lookup (skills ?r) nm of
                               None \<Rightarrow> []
                             | Some skill \<Rightarrow>
                                 if enabled (metadata skill) then map Some (get_tools skill)
                                 else []) names))"
    by (auto split: option.splits if_splits)
  from assms have "relevant =
      map (\<lambda>(nm, skill). get_loader_tool skill)
        (filter (\<lambda>(nm, skill). enabled (metadata skill)) (DAList.impl_of (skills ?r)))
      @ concat (map (\<lambda>nm. case DAList.lookup (skills ?r) nm of
                               None \<Rightarrow> []
                             | Some skill \<Rightarrow>
                                 if enabled (metadata skill) then map Some (get_tools skill)
                                 else []) names)"
    by (simp add: get_tools_for_skills_def get_all_loader_tools_None tools_loop_eq)
  then show ?thesis
    using A B by (simp only: set_append Un_iff) blast
qed

text \<open>
  C9.  The two invocation paths compute the same tool list, the one
  \<open>get_tools_for_skills\<close> returns for the loaded names of the request, and hand the
  request with this list to the handler; so they return the same response.  The only
  exception either path can raise comes from the verbose log line, when the list holds
  a \<^verbatim>\<open>None\<close> loader, and then both raise it; with a registry built by \<open>register\<close> and
  \<open>unregister\<close> calls this does not happen.
\<close>

theorem dynamic_filter_paths:
  "get_filtered_tools mw (request_skills_loaded req) =
     get_tools_for_skills (registry mw) (request_skills_loaded req)
   \<and> (\<exists>relevant.
        get_tools_for_skills (registry mw) (request_skills_loaded req) = Inr relevant
        \<and> fst (wrap_model_call mw req h) =
            (if verbose mw \<and> None \<in> set relevant then Inl AttributeError
             else Inr (h (req\<lparr>tools := relevant\<rparr>)))
        \<and> fst (awrap_model_call mw req h) =
            (if verbose mw \<and> None \<in> set relevant then Inl AttributeError
             else Inr (h (req\<lparr>tools := relevant\<rparr>)))
        \<and> (registry mw = apply_ops SkillRegistry_init ops \<longrightarrow> None \<notin> set relevant))
   \<and> fst (wrap_model_call mw req h) = fst (awrap_model_call mw req h)"
proof -
  obtain relevant where
    rel: "get_tools_for_skills (registry mw) (request_skills_loaded req) = Inr relevant"
    using get_tools_for_skills_total by blast
  have built: "None \<notin> set relevant" if "registry mw = apply_ops SkillRegistry_init ops"
    using rel that built_registry_tools [of ops "request_skills_loaded req" relevant]
    by simp
  show ?thesis
    using rel built wrap_model_call_result [OF rel, of h] awrap_model_call_result [OF rel, of h]
    by (simp add: get_filtered_tools_def)
qed

lemma registry_AB_ops:
  "registry_AB = apply_ops SkillRegistry_init [Register skill_A, Register skill_B]"
  by (simp add: registry_AB_def)

lemma request_A_tools:
  "get_tools_for_skills registry_AB (request_skills_loaded request_A) =
     Inr [Some (BaseTool ''loadA'' ''load A''), Some (BaseTool ''loadB'' ''load B''),
          Some (BaseTool ''a1'' ''x''), Some (BaseTool ''a2'' ''y'')]"
  by (simp add: get_tools_for_skills_def get_all_loader_tools_None tools_loop_eq
      request_skills_loaded_def request_A_def registry_AB_skills registry_AB_lookup
      skill_A_def skill_B_def mk_metadata_def)

theorem dynamic_filter_paths_witness:
  "registry (SkillMiddleware_init registry_AB True None) =
     apply_ops SkillRegistry_init [Register skill_A, Register skill_B]
   \<and> fst (wrap_model_call (SkillMiddleware_init registry_AB True None) request_A tools) =
       Inr [Some (BaseTool ''loadA'' ''load A''), Some (BaseTool ''loadB'' ''load B''),
            Some (BaseTool ''a1'' ''x''), Some (BaseTool ''a2'' ''y'')]
   \<and> fst (awrap_model_call (SkillMiddleware_init registry_AB True None) request_A tools) =
       Inr [Some (BaseTool ''loadA'' ''load A''), Some (BaseTool ''loadB'' ''load B''),
            Some (BaseTool ''a1'' ''x''), Some (BaseTool ''a2'' ''y'')]"
proof -
  have ops: "registry (SkillMiddleware_init registry_AB True None) =
      apply_ops SkillRegistry_init [Register skill_A, Register skill_B]"
    by (simp add: SkillMiddleware_init_def registry_AB_def)
  have reg: "registry (SkillMiddleware_init registry_AB True None) = registry_AB"
    by (simp add: SkillMiddleware_init_def)
  let ?mw = "SkillMiddleware_init registry_AB True None"
  let ?ts = "[Some (BaseTool ''loadA'' ''load A''), Some (BaseTool ''loadB'' ''load B''),
            Some (BaseTool ''a1'' ''x''), Some (BaseTool ''a2'' ''y'')]"
  from dynamic_filter_paths [of ?mw request_A tools "[Register skill_A, Register skill_B]"]
  obtain relevant where
    r: "get_tools_for_skills (registry ?mw) (request_skills_loaded request_A) = Inr relevant"
    and w: "fst (wrap_model_call ?mw request_A tools) =
            (if verbose ?mw \<and> None \<in> set relevant then Inl AttributeError
             else Inr (tools (request_A\<lparr>tools := relevant\<rparr>)))"
    and a: "fst (awrap_model_call ?mw request_A tools) =
            (if verbose ?mw \<and> None \<in> set relevant then Inl AttributeError
             else Inr (tools (request_A\<lparr>tools := relevant\<rparr>)))"
    and n: "registry ?mw = apply_ops SkillRegistry_init [Register skill_A, Register skill_B]
            \<longrightarrow> None \<notin> set relevant"
    by blast
  from n ops have none: "None \<notin> set relevant" by blast
  from r have rel: "relevant = ?ts"
    by (simp only: reg request_A_tools sum.inject)
  have "fst (wrap_model_call ?mw request_A tools) = Inr ?ts"
    using w none by (simp add: rel)
  moreover have "fst (awrap_model_call ?mw request_A tools) = Inr ?ts"
    using a none by (simp add: rel)
  ultimately show ?thesis using ops by blast
qed

text \<open>
  C10.  The predicate given to the constructor is stored and never applied: with any
  predicate the middleware computes the tool list of \<open>get_tools_for_skills\<close>, and both
  invocation paths return what they return without a predicate.
\<close>

theorem filter_fn_ignored:
  "filter_fn (SkillMiddleware_init reg v (Some f)) = Some f
   \<and> get_filtered_tools (SkillMiddleware_init reg v (Some f)) skills_loaded =
       get_tools_for_skills reg skills_loaded
   \<and> get_filtered_tools (SkillMiddleware_init reg v (Some f)) skills_loaded =
       get_filtered_tools (SkillMiddleware_init reg v None) skills_loaded
   \<and> wrap_model_call (SkillMiddleware_init reg v (Some f)) req h =
       wrap_model_call (SkillMiddleware_init reg v None) req h
   \<and> awrap_model_call (SkillMiddleware_init reg v (Some f)) req h =
       awrap_model_call (SkillMiddleware_init reg v None) req h"
  by (simp add: SkillMiddleware_init_def get_filtered_tools_def wrap_model_call_def
      awrap_model_call_def Let_def split: sum.splits)

theorem filter_fn_ignored_witness:
  "get_filtered_tools (SkillMiddleware_init registry_AB False (Some (\<lambda>t. False)))
     (request_skills_loaded request_A) =
     Inr [Some (BaseTool ''loadA'' ''load A''), Some (BaseTool ''loadB'' ''load B''),
          Some (BaseTool ''a1'' ''x''), Some (BaseTool ''a2'' ''y'')]"
  using filter_fn_ignored [of registry_AB False "\<lambda>t. False" "request_skills_loaded request_A"
      request_A tools]
  by (simp add: request_A_tools)

end
